theory Spec2Isabelle
  imports Main "HOL-Library.Sublist"
begin

section \<open>Tensors of floating-point cells\<close>

text \<open>
  The notebook \<^verbatim>\<open>notebooks/proof_of_concept01.ipynb\<close> works on two-dimensional
  floating-point tensors. The engine never does arithmetic on a cell: it copies cells,
  compares them (\<^verbatim>\<open>torch.unique\<close>, \<^verbatim>\<open>torch.sort\<close>, \<^verbatim>\<open>torch.isin\<close>) and tests them
  for not-a-number (\<^verbatim>\<open>torch.isnan\<close>). A cell is therefore either the sentinel \<open>NaN\<close> or a
  number of a linearly ordered type; \<open>NaN\<close> compares unequal to every cell, itself included.
\<close>

datatype 'a cell = NaN | Num 'a

fun isnan :: "'a cell \<Rightarrow> bool" where
  "isnan NaN = True"
| "isnan (Num v) = False"

text \<open>The comparison \<^verbatim>\<open>==\<close> of two floating-point cells.\<close>

fun cell_eq :: "'a cell \<Rightarrow> 'a cell \<Rightarrow> bool" where
  "cell_eq (Num u) (Num v) = (u = v)"
| "cell_eq _ _ = False"

text \<open>The numbers of a column, in order, without its \<open>NaN\<close> cells.\<close>

fun nums :: "'a cell list \<Rightarrow> 'a list" where
  "nums [] = []"
| "nums (NaN # xs) = nums xs"
| "nums (Num v # xs) = v # nums xs"

datatype device = CPU | CUDA

text \<open>
  A tensor of shape \<open>(length rows, ncols)\<close> on a device. The number of columns is kept
  apart from the rows, because a tensor without rows still has a width and column indices
  are checked against it.
\<close>

record 'a tensor =
  device :: device
  ncols :: nat
  rows :: "'a cell list list"

definition wf_tensor :: "'a tensor \<Rightarrow> bool" where
  "wf_tensor t = list_all (\<lambda>r. length r = ncols t) (rows t)"

text \<open>
  The errors a call can raise: the use of the unassigned local \<^verbatim>\<open>data\<close>, a column index
  out of range, and the overflow error of the library when an integer argument does not
  fit a signed 64-bit integer.
\<close>

datatype error = UnboundLocalError | IndexError | Overflow

section \<open>The library operations the engine calls\<close>

text \<open>
  An index \<open>i\<close> into a dimension of size \<open>n\<close>: \<open>0 \<le> i < n\<close> counts from the front,
  \<open>-n \<le> i < 0\<close> from the back, anything else raises \<^verbatim>\<open>IndexError\<close>.
\<close>

definition resolve_index :: "nat \<Rightarrow> int \<Rightarrow> nat option" where
  "resolve_index n i =
     (if 0 \<le> i \<and> i < int n then Some (nat i)
      else if - int n \<le> i \<and> i < 0 then Some (nat (int n + i))
      else None)"

text \<open>\<^verbatim>\<open>data[:, i]\<close> read.\<close>

definition get_column :: "'a tensor \<Rightarrow> int \<Rightarrow> 'a cell list option" where
  "get_column t i =
     (case resolve_index (ncols t) i of
        None \<Rightarrow> None
      | Some c \<Rightarrow> Some (map (\<lambda>r. r ! c) (rows t)))"

text \<open>\<^verbatim>\<open>data[:, i] = col\<close>, the write in place.\<close>

definition set_column :: "'a tensor \<Rightarrow> int \<Rightarrow> 'a cell list \<Rightarrow> 'a tensor option" where
  "set_column t i col =
     (case resolve_index (ncols t) i of
        None \<Rightarrow> None
      | Some c \<Rightarrow> Some (t\<lparr>rows := map2 (\<lambda>r v. r[c := v]) (rows t) col\<rparr>))"

text \<open>\<^verbatim>\<open>torch.column_stack([data, col])\<close>: a new tensor, one column wider.\<close>

definition column_stack :: "'a tensor \<Rightarrow> 'a cell list \<Rightarrow> 'a tensor" where
  "column_stack t col =
     t\<lparr>ncols := Suc (ncols t), rows := map2 (\<lambda>r v. r @ [v]) (rows t) col\<rparr>"

text \<open>
  \<^verbatim>\<open>torch.unique\<close> of a column: the distinct numbers in ascending order; \<open>NaN\<close> cells are
  unequal to each other, so each is kept, after the numbers.
\<close>

definition unique :: "'a::linorder cell list \<Rightarrow> 'a cell list" where
  "unique xs = map Num (sort (remdups (nums xs))) @ filter isnan xs"

text \<open>\<^verbatim>\<open>torch.sort(xs).values\<close>: ascending, \<open>NaN\<close> last.\<close>

definition sort_values :: "'a::linorder cell list \<Rightarrow> 'a cell list" where
  "sort_values xs = map Num (sort (nums xs)) @ filter isnan xs"

text \<open>
  The slice \<^verbatim>\<open>xs[:k]\<close>: the first \<open>k\<close> elements for \<open>k \<ge> 0\<close>, and all but the last
  \<open>-k\<close> elements for \<open>k < 0\<close>.
\<close>

definition slice_to :: "int \<Rightarrow> 'b list \<Rightarrow> 'b list" where
  "slice_to k xs =
     (if 0 \<le> k then take (nat k) xs else take (nat (int (length xs) + k)) xs)"

text \<open>\<^verbatim>\<open>torch.isin(xs, ts)\<close>: for each cell of \<open>xs\<close>, whether it equals some cell of \<open>ts\<close>.\<close>

definition isin :: "'a cell list \<Rightarrow> 'a cell list \<Rightarrow> bool list" where
  "isin xs ts = map (\<lambda>x. list_ex (cell_eq x) ts) xs"

text \<open>\<^verbatim>\<open>torch.where(~mask, col, torch.full_like(col, float('nan')))\<close>.\<close>

definition where_not :: "bool list \<Rightarrow> 'a cell list \<Rightarrow> 'a cell list" where
  "where_not marked col = map2 (\<lambda>m v. if \<not> m then v else NaN) marked col"

text \<open>
  \<^verbatim>\<open>torch.roll(xs, shifts=s, dims=0)\<close>: the element at position \<open>i\<close> moves to position
  \<open>(i + s) mod n\<close>, so position \<open>i\<close> of the result holds element \<open>(i - s) mod n\<close>. The
  shift is passed to the library as a signed 64-bit integer; a Python integer outside that
  range raises the overflow error before anything is rolled.
\<close>

definition fits_int64 :: "int \<Rightarrow> bool" where
  "fits_int64 k \<longleftrightarrow> - (2 ^ 63) \<le> k \<and> k < 2 ^ 63"

definition roll_values :: "int \<Rightarrow> 'b list \<Rightarrow> 'b list" where
  "roll_values s xs =
     (if xs = [] then [] else rotate (nat ((- s) mod int (length xs))) xs)"

definition roll :: "int \<Rightarrow> 'b list \<Rightarrow> error + 'b list" where
  "roll s xs = (if fits_int64 s then Inr (roll_values s xs) else Inl Overflow)"

text \<open>\<^verbatim>\<open>data[mask]\<close> with a boolean mask over the rows: a new tensor of the rows marked.\<close>

definition select_rows :: "'a tensor \<Rightarrow> bool list \<Rightarrow> 'a tensor" where
  "select_rows t keep = t\<lparr>rows := map fst (filter snd (zip (rows t) keep))\<rparr>"

text \<open>
  \<^verbatim>\<open>t.to('cuda')\<close> returns \<open>t\<close> itself when \<open>t\<close> is already on the accelerator and a copy
  on the accelerator otherwise; \<^verbatim>\<open>t.clone()\<close> is a copy on the device of \<open>t\<close>. The boolean
  says whether the result shares its storage with \<open>t\<close>.
\<close>

definition to_cuda :: "'a tensor \<Rightarrow> 'a tensor \<times> bool" where
  "to_cuda t = (t\<lparr>device := CUDA\<rparr>, device t = CUDA)"

definition clone :: "'a tensor \<Rightarrow> 'a tensor \<times> bool" where
  "clone t = (t, False)"

section \<open>The shifter\<close>

text \<open>
  The local variable \<^verbatim>\<open>data\<close> is assigned in two branches only. When neither is taken it
  is unbound, and its first use raises.
  \<^verbatim>\<open>
    if torch.cuda.is_available() and not force_cpu:
        data = data_org.to('cuda')
    elif force_cpu:
        data = data_org.clone()
  \<close>
\<close>

definition place :: "bool \<Rightarrow> bool \<Rightarrow> 'a tensor \<Rightarrow> ('a tensor \<times> bool) option" where
  "place cuda_is_available force_cpu data_org =
     (if cuda_is_available \<and> \<not> force_cpu then Some (to_cuda data_org)
      else if force_cpu then Some (clone data_org)
      else None)"

text \<open>
  \<^verbatim>\<open>
    unique_time_idx = torch.unique(data[:, time_column_idx])
    time_values_to_mask = torch.sort(unique_time_idx).values[:steps]
    time_values_mask = torch.isin(data[:, time_column_idx], time_values_to_mask)
  \<close>
\<close>

definition time_values_to_mask :: "'a::linorder cell list \<Rightarrow> int \<Rightarrow> 'a cell list" where
  "time_values_to_mask time_column steps = slice_to steps (sort_values (unique time_column))"

definition time_values_mask :: "'a::linorder cell list \<Rightarrow> int \<Rightarrow> bool list" where
  "time_values_mask time_column steps = isin time_column (time_values_to_mask time_column steps)"

text \<open>
  \<^verbatim>\<open>
    masked_column_to_shift = torch.where(~time_values_mask, column_to_shift, torch.full_like(column_to_shift, float('nan')))
    masked_column_shifted = torch.roll(masked_column_to_shift, shifts = - steps, dims=0)
  \<close>
\<close>

definition masked_column_shifted ::
  "bool list \<Rightarrow> 'a cell list \<Rightarrow> int \<Rightarrow> error + 'a cell list" where
  "masked_column_shifted marked column_to_shift steps =
     roll (- steps) (where_not marked column_to_shift)"

text \<open>The column written when the shift fits: the masked column, rolled.\<close>

abbreviation shifted_values :: "bool list \<Rightarrow> 'a cell list \<Rightarrow> int \<Rightarrow> 'a cell list" where
  "shifted_values marked column_to_shift steps \<equiv>
     roll_values (- steps) (where_not marked column_to_shift)"

text \<open>
  \<^verbatim>\<open>
    if return_full == False:
        nan_mask = ~torch.isnan(data[:, column_to_shift_idx])
        data = data[nan_mask]
    return data
  \<close>
\<close>

definition drop_nan_rows :: "'a tensor \<Rightarrow> int \<Rightarrow> bool \<Rightarrow> error + 'a tensor" where
  "drop_nan_rows data column_to_shift_idx return_full =
     (if \<not> return_full then
        (case get_column data column_to_shift_idx of
           None \<Rightarrow> Inl IndexError
         | Some col \<Rightarrow> Inr (select_rows data (map (\<lambda>v. \<not> isnan v) col)))
      else Inr data)"

text \<open>
  The whole of \<^verbatim>\<open>shift_and_mask_column\<close>. The first argument is the answer of
  \<^verbatim>\<open>torch.cuda.is_available()\<close>. The result is a pair: the caller's tensor \<^verbatim>\<open>data_org\<close>
  as it is after the call, and what the call returns or raises. The source column is read
  at \<^verbatim>\<open>-time_column_idx\<close>:
  \<^verbatim>\<open>
    column_to_shift = data[:, -time_column_idx]
    ...
    if retain_unshifted_col == False:
        data[:, column_to_shift_idx] = masked_column_shifted
    else:
        data = torch.column_stack([data, masked_column_shifted])
  \<close>
\<close>

definition shift_and_mask_column ::
  "bool \<Rightarrow> 'a::linorder tensor \<Rightarrow> int \<Rightarrow> int \<Rightarrow> int \<Rightarrow> bool \<Rightarrow> bool \<Rightarrow> bool
     \<Rightarrow> 'a tensor \<times> (error + 'a tensor)" where
  "shift_and_mask_column cuda_is_available data_org column_to_shift_idx time_column_idx steps
       force_cpu return_full retain_unshifted_col =
     (case place cuda_is_available force_cpu data_org of
        None \<Rightarrow> (data_org, Inl UnboundLocalError)
      | Some (data, shared) \<Rightarrow>
          (case get_column data time_column_idx of
             None \<Rightarrow> (data_org, Inl IndexError)
           | Some time_column \<Rightarrow>
               (case get_column data (- time_column_idx) of
                  None \<Rightarrow> (data_org, Inl IndexError)
                | Some column_to_shift \<Rightarrow>
                    (case masked_column_shifted (time_values_mask time_column steps)
                            column_to_shift steps of
                       Inl e \<Rightarrow> (data_org, Inl e)
                     | Inr shifted \<Rightarrow>
                         if \<not> retain_unshifted_col then
                           (case set_column data column_to_shift_idx shifted of
                              None \<Rightarrow> (data_org, Inl IndexError)
                            | Some data' \<Rightarrow>
                                (if shared then data' else data_org,
                                 drop_nan_rows data' column_to_shift_idx return_full))
                         else
                           (data_org,
                            drop_nan_rows (column_stack data shifted) column_to_shift_idx
                              return_full)))))"

text \<open>
  The test oracle of the notebook; the group column is column 2.
  \<^verbatim>\<open>
    num_groups = torch.unique(data[:, 2]).shape[0]
    num_row_censured = num_groups * abs(steps)
    length_diff = data.shape[0] - new_data.shape[0]
    is_lenght_correct = length_diff == num_row_censured
  \<close>
\<close>

definition check_if_length_correct :: "'a::linorder tensor \<Rightarrow> 'a tensor \<Rightarrow> int \<Rightarrow> error + bool" where
  "check_if_length_correct data new_data steps =
     (case get_column data 2 of
        None \<Rightarrow> Inl IndexError
      | Some group_column \<Rightarrow>
          (let num_groups = length (unique group_column);
               num_row_censured = int num_groups * abs steps;
               length_diff = int (length (rows data)) - int (length (rows new_data))
           in Inr (length_diff = num_row_censured)))"

section \<open>Concrete tables\<close>

text \<open>
  One group observed at the time steps 0, 1, 2, 3 with targets 10, 20, 30, 40. The columns
  are the row identifier, the time index, the group identifier and the target.
\<close>

definition one_group :: "int tensor" where
  "one_group = \<lparr>device = CPU, ncols = 4, rows =
     [[Num 0, Num 0, Num 0, Num 10],
      [Num 1, Num 1, Num 0, Num 20],
      [Num 2, Num 2, Num 0, Num 30],
      [Num 3, Num 3, Num 0, Num 40]]\<rparr>"

text \<open>The same table already resident on the accelerator.\<close>

definition one_group_on_cuda :: "int tensor" where
  "one_group_on_cuda = one_group\<lparr>device := CUDA\<rparr>"

text \<open>One group observed at the time steps 0, 1, 2 with targets 10, 20, 30.\<close>

definition one_group_of_three :: "int tensor" where
  "one_group_of_three = \<lparr>device = CPU, ncols = 4, rows =
     [[Num 0, Num 0, Num 0, Num 10],
      [Num 1, Num 1, Num 0, Num 20],
      [Num 2, Num 2, Num 0, Num 30]]\<rparr>"

text \<open>Two groups, each observed at the time steps 0, 1, 2, sorted by group and time.\<close>

definition two_groups :: "int tensor" where
  "two_groups = \<lparr>device = CPU, ncols = 4, rows =
     [[Num 0, Num 0, Num 0, Num 10],
      [Num 1, Num 1, Num 0, Num 20],
      [Num 2, Num 2, Num 0, Num 30],
      [Num 3, Num 0, Num 1, Num 40],
      [Num 4, Num 1, Num 1, Num 50],
      [Num 5, Num 2, Num 1, Num 60]]\<rparr>"

text \<open>
  One group whose time index is stored twice, in column 1 and in column 2, followed by a
  feature column (7, 8, 9) and the target column (10, 20, 30).
\<close>

definition two_time_columns :: "int tensor" where
  "two_time_columns = \<lparr>device = CPU, ncols = 5, rows =
     [[Num 0, Num 0, Num 0, Num 7, Num 10],
      [Num 1, Num 1, Num 1, Num 8, Num 20],
      [Num 2, Num 2, Num 2, Num 9, Num 30]]\<rparr>"

text \<open>The definitions unfolded to run the engine on a concrete table.\<close>

lemmas engine_defs =
  shift_and_mask_column_def place_def clone_def to_cuda_def get_column_def set_column_def
  column_stack_def resolve_index_def time_values_mask_def time_values_to_mask_def isin_def
  sort_values_def unique_def slice_to_def masked_column_shifted_def where_not_def roll_def
  roll_values_def fits_int64_def
  drop_nan_rows_def select_rows_def check_if_length_correct_def

section \<open>Helper lemmas\<close>

lemma select_rows_by_predicate:
  "map fst (filter snd (zip xs (map P xs))) = filter P xs"
  by (induction xs) simp_all

lemma get_column_resolved:
  "resolve_index (ncols t) i = Some c \<Longrightarrow> get_column t i = Some (map (\<lambda>r. r ! c) (rows t))"
  by (simp add: get_column_def)

lemma resolve_index_less: "resolve_index n i = Some c \<Longrightarrow> c < n"
  by (auto simp: resolve_index_def split: if_splits)

lemma drop_nan_rows_False:
  assumes "resolve_index (ncols data) column_to_shift_idx = Some c"
  shows "drop_nan_rows data column_to_shift_idx False =
           Inr (data\<lparr>rows := filter (\<lambda>r. \<not> isnan (r ! c)) (rows data)\<rparr>)"
proof -
  have "map fst (filter snd (zip (rows data) (map (\<lambda>r. \<not> isnan (r ! c)) (rows data))))
          = filter (\<lambda>r. \<not> isnan (r ! c)) (rows data)"
    by (rule select_rows_by_predicate)
  then show ?thesis
    using assms
    by (simp add: drop_nan_rows_def get_column_resolved select_rows_def comp_def)
qed

lemma length_roll: "length (roll_values s xs) = length xs"
  by (simp add: roll_values_def)

lemma length_where_not: "length marked = length col \<Longrightarrow> length (where_not marked col) = length col"
  by (simp add: where_not_def)

lemma length_shifted_values:
  "length marked = length col \<Longrightarrow> length (shifted_values marked col steps) = length col"
  by (simp add: length_roll length_where_not)

lemma masked_column_shifted_fits:
  "fits_int64 (- steps) \<Longrightarrow>
     masked_column_shifted marked col steps = Inr (shifted_values marked col steps)"
  by (simp add: masked_column_shifted_def roll_def)

lemma masked_column_shifted_overflow:
  "\<not> fits_int64 (- steps) \<Longrightarrow> masked_column_shifted marked col steps = Inl Overflow"
  by (simp add: masked_column_shifted_def roll_def)

lemma placed_copy:
  assumes "cuda_is_available \<or> force_cpu"
  shows "\<exists>data shared. place cuda_is_available force_cpu data_org = Some (data, shared)
           \<and> ncols data = ncols data_org \<and> rows data = rows data_org
           \<and> (shared \<longleftrightarrow> cuda_is_available \<and> \<not> force_cpu \<and> device data_org = CUDA)
           \<and> (shared \<longrightarrow> data = data_org)"
  using assms by (auto simp: place_def to_cuda_def clone_def)


section \<open>The censor stage\<close>

text \<open>
  Claim C9. On a table whose column \<open>column_to_shift_idx\<close> exists, the censor stage with
  \<open>return_full\<close> false keeps exactly the rows whose cell in that column is not \<open>NaN\<close>, in
  their original order (the rows kept are the table's rows filtered by that test, so the
  rows dropped are exactly the \<open>NaN\<close> ones); with \<open>return_full\<close> true it returns the table
  as it is.
\<close>

theorem drop_nan_rows_filters:
  assumes "resolve_index (ncols data) column_to_shift_idx = Some c"
  shows "drop_nan_rows data column_to_shift_idx False =
           Inr (data\<lparr>rows := filter (\<lambda>r. \<not> isnan (r ! c)) (rows data)\<rparr>)
         \<and> drop_nan_rows data column_to_shift_idx True = Inr data"
  using drop_nan_rows_False [OF assms] by (simp add: drop_nan_rows_def)

theorem drop_nan_rows_filters_witness:
  "resolve_index (ncols (one_group\<lparr>rows := [[Num 0, Num 0, Num 0, NaN], [Num 1, Num 1, Num 0, Num 10]]\<rparr>)) (- 1) = Some 3
   \<and> drop_nan_rows (one_group\<lparr>rows := [[Num 0, Num 0, Num 0, NaN], [Num 1, Num 1, Num 0, Num 10]]\<rparr>) (- 1) False
       = Inr (one_group\<lparr>rows := [[Num 1, Num 1, Num 0, Num 10]]\<rparr>)"
proof -
  have h: "resolve_index (ncols (one_group\<lparr>rows := [[Num 0, Num 0, Num 0, NaN], [Num 1, Num 1, Num 0, Num 10]]\<rparr>)) (- 1) = Some 3"
    by (simp add: resolve_index_def one_group_def)
  show ?thesis
    using h drop_nan_rows_filters [OF h] by simp
qed

section \<open>Placement of the working copy\<close>

text \<open>
  Claim C10. When no accelerator is available and \<open>force_cpu\<close> is false, neither placement
  branch assigns \<^verbatim>\<open>data\<close>: the call raises \<^verbatim>\<open>UnboundLocalError\<close> at the first use of
  \<^verbatim>\<open>data\<close>, whatever the table and the other options are, returns no table, and leaves
  the caller's table as it was.
\<close>

theorem no_cuda_no_force_cpu_raises:
  assumes "\<not> cuda_is_available" and "\<not> force_cpu"
  shows "shift_and_mask_column cuda_is_available data_org column_to_shift_idx time_column_idx
           steps force_cpu return_full retain_unshifted_col
         = (data_org, Inl UnboundLocalError)"
  using assms by (simp add: shift_and_mask_column_def place_def)

theorem no_cuda_no_force_cpu_raises_witness:
  "shift_and_mask_column False one_group (- 1) 1 1 False False False
     = (one_group, Inl UnboundLocalError)"
proof -
  have h: "\<not> False" by simp
  show ?thesis
    by (rule no_cuda_no_force_cpu_raises [OF h h])
qed

section \<open>The boundary mask\<close>

lemma nums_append: "nums (xs @ ys) = nums xs @ nums ys"
  by (induction xs rule: nums.induct) simp_all

lemma nums_map_Num: "nums (map Num vs) = vs"
  by (induction vs) simp_all

lemma nums_filter_isnan: "nums (filter isnan xs) = []"
  by (induction xs rule: nums.induct) simp_all

lemma filter_isnan_map_Num: "filter isnan (map Num vs) = []"
  by (induction vs) simp_all

lemma set_nums: "v \<in> set (nums xs) \<longleftrightarrow> Num v \<in> set xs"
  by (induction xs rule: nums.induct) auto

text \<open>Sorting the output of \<^verbatim>\<open>torch.unique\<close> changes nothing: it is sorted already.\<close>

lemma sort_values_unique: "sort_values (unique xs) = unique xs"
  by (simp add: sort_values_def unique_def nums_append nums_map_Num nums_filter_isnan
      filter_isnan_map_Num sorted_sort_id)

lemma list_ex_cell_eq:
  "list_ex (cell_eq x) ts \<longleftrightarrow> (\<exists>v. x = Num v \<and> Num v \<in> set ts)"
proof (cases x)
  case NaN
  then show ?thesis by (simp add: list_ex_iff)
next
  case (Num v)
  have "(\<exists>t\<in>set ts. cell_eq (Num v) t) \<longleftrightarrow> Num v \<in> set ts"
  proof
    assume "\<exists>t\<in>set ts. cell_eq (Num v) t"
    then obtain t where t: "t \<in> set ts" "cell_eq (Num v) t" by blast
    from t(2) have "t = Num v" by (cases t) simp_all
    with t(1) show "Num v \<in> set ts" by simp
  next
    assume "Num v \<in> set ts"
    then show "\<exists>t\<in>set ts. cell_eq (Num v) t" by (intro bexI [of _ "Num v"]) simp_all
  qed
  with Num show ?thesis by (simp add: list_ex_iff)
qed

lemma Num_in_take_unique:
  "Num v \<in> set (take k (map Num vs @ filter isnan xs)) \<longleftrightarrow> v \<in> set (take k vs)"
proof -
  have "Num v \<notin> set (take (k - length vs) (filter isnan xs))"
    by (auto dest!: in_set_takeD)
  then show ?thesis
    by (auto simp: take_map)
qed

text \<open>
  In a sorted list without repetitions, the first \<open>k\<close> elements are the elements that
  have fewer than \<open>k\<close> elements below them.
\<close>

lemma sorted_distinct_take_iff:
  fixes v :: "'a::linorder"
  shows "sorted xs \<Longrightarrow> distinct xs \<Longrightarrow>
     v \<in> set (take k xs) \<longleftrightarrow> v \<in> set xs \<and> card {u \<in> set xs. u < v} < k"
proof (induction xs arbitrary: k)
  case Nil
  then show ?case by simp
next
  case (Cons a xs)
  show ?case
  proof (cases k)
    case 0
    then show ?thesis by simp
  next
    case (Suc k')
    have IH: "v \<in> set (take k' xs) \<longleftrightarrow> v \<in> set xs \<and> card {u \<in> set xs. u < v} < k'"
      using Cons by simp
    show ?thesis
    proof (cases "v = a")
      case True
      have e: "{u \<in> set (a # xs). u < v} = {}"
        using Cons.prems True by auto
      have "v \<in> set (take k (a # xs))" using True Suc by simp
      moreover have "v \<in> set (a # xs)" using True by simp
      moreover have "card {u \<in> set (a # xs). u < v} < k" unfolding e using Suc by simp
      ultimately show ?thesis by blast
    next
      case False
      show ?thesis
      proof (cases "v \<in> set xs")
        case True
        then have "a < v" using Cons.prems False by auto
        then have "{u \<in> set (a # xs). u < v} = insert a {u \<in> set xs. u < v}"
          by auto
        moreover have "a \<notin> {u \<in> set xs. u < v}" using Cons.prems by simp
        ultimately have "card {u \<in> set (a # xs). u < v} = Suc (card {u \<in> set xs. u < v})"
          by simp
        with IH False True Suc show ?thesis by simp
      next
        case F2: False
        with False Suc show ?thesis by (auto dest: in_set_takeD)
      qed
    qed
  qed
qed

lemma time_values_to_mask_nonneg:
  assumes "0 \<le> steps"
  shows "time_values_to_mask time_column steps
           = take (nat steps)
               (map Num (sort (remdups (nums time_column))) @ filter isnan time_column)"
  unfolding time_values_to_mask_def sort_values_unique
  using assms by (simp add: slice_to_def unique_def del: take_append)

lemma time_values_mask_nth_nonneg:
  assumes "0 \<le> steps" and "i < length time_column"
  shows "time_values_mask time_column steps ! i \<longleftrightarrow>
           (\<exists>v. time_column ! i = Num v
                \<and> v \<in> set (take (nat steps) (sort (remdups (nums time_column)))))"
  using assms(2)
  by (simp add: time_values_mask_def isin_def list_ex_cell_eq
      time_values_to_mask_nonneg [OF assms(1)] Num_in_take_unique del: take_append)

lemma length_time_values_mask: "length (time_values_mask time_column steps) = length time_column"
  by (simp add: time_values_mask_def isin_def)

text \<open>
  For every time column and every \<open>steps \<ge> 0\<close>, the mask has one entry per row, and it
  marks row \<open>i\<close> if and only if the time index of row \<open>i\<close> is a number (not \<open>NaN\<close>) among
  the \<open>steps\<close> smallest distinct time values of the table, that is, fewer than \<open>steps\<close>
  distinct time values of the table lie below it.
\<close>

theorem time_values_mask_marks_smallest:
  assumes "0 \<le> steps" and "i < length time_column"
  shows "length (time_values_mask time_column steps) = length time_column
         \<and> (time_values_mask time_column steps ! i \<longleftrightarrow>
              (\<exists>v. time_column ! i = Num v
                   \<and> card {u \<in> set (nums time_column). u < v} < nat steps))"
proof -
  let ?L = "sort (remdups (nums time_column))"
  have "time_values_mask time_column steps ! i \<longleftrightarrow>
          (\<exists>v. time_column ! i = Num v \<and> v \<in> set (take (nat steps) ?L))"
    using assms by (rule time_values_mask_nth_nonneg)
  moreover have "\<And>v. v \<in> set (take (nat steps) ?L) \<longleftrightarrow>
      v \<in> set (nums time_column) \<and> card {u \<in> set (nums time_column). u < v} < nat steps"
    using sorted_distinct_take_iff [of ?L _ "nat steps"] by simp
  moreover have "\<And>v. time_column ! i = Num v \<Longrightarrow> v \<in> set (nums time_column)"
    using assms(2) by (auto simp: set_nums dest: nth_mem)
  ultimately show ?thesis
    using length_time_values_mask by blast
qed

theorem time_values_mask_marks_smallest_witness:
  "(0::int) \<le> 2 \<and> 4 < length [Num (0::int), Num 1, Num 2, Num 0, Num 1, Num 2]
   \<and> time_values_mask [Num (0::int), Num 1, Num 2, Num 0, Num 1, Num 2] 2 ! 4"
proof -
  let ?col = "[Num (0::int), Num 1, Num 2, Num 0, Num 1, Num 2]"
  have h1: "(0::int) \<le> 2" by simp
  have h2: "4 < length ?col" by simp
  have s: "{u \<in> set (nums ?col). u < 1} = {0}" by auto
  have "?col ! 4 = Num 1 \<and> card {u \<in> set (nums ?col). u < 1} < nat 2"
    unfolding s by simp
  then have "\<exists>v. ?col ! 4 = Num v \<and> card {u \<in> set (nums ?col). u < v} < nat 2"
    by (rule exI [of _ 1])
  then show ?thesis
    using time_values_mask_marks_smallest [OF h1 h2] by simp
qed

text \<open>
  Claim C2. The mask is meant to mark the rows at the \<open>|steps|\<close> smallest distinct time
  values, the same rows for \<open>steps\<close> and \<open>-steps\<close>. The code slices with the signed value,
  \<^verbatim>\<open>[:steps]\<close>, which for a negative \<open>steps\<close> keeps all but the last \<open>|steps|\<close> distinct
  values. Over the time values 0, 1, 2 the mask for \<open>steps = -1\<close> marks the rows at times 0
  and 1, while the mask for \<open>steps = 1\<close> marks the row at time 0 only; the run of the engine
  on that one group then removes two rows, and the oracle of the notebook, which counts
  with \<open>abs(steps)\<close>, answers false.
\<close>

theorem negative_steps_mask_differs:
  "time_values_mask [Num (0::int), Num 1, Num 2] (- 1) = [True, True, False]
   \<and> time_values_mask [Num (0::int), Num 1, Num 2] \<bar>- 1\<bar> = [True, False, False]
   \<and> shift_and_mask_column False one_group_of_three (- 1) 1 (- 1) True False False
       = (one_group_of_three,
          Inr (one_group_of_three\<lparr>rows := [[Num 0, Num 0, Num 0, Num 30]]\<rparr>))
   \<and> check_if_length_correct one_group_of_three
         (one_group_of_three\<lparr>rows := [[Num 0, Num 0, Num 0, Num 30]]\<rparr>) (- 1) = Inr False"
  by (simp add: engine_defs one_group_of_three_def rotate_def eval_nat_numeral)

section \<open>Configuration errors\<close>

lemma ncols_place:
  "place cuda_is_available force_cpu data_org = Some (data, shared) \<Longrightarrow>
     ncols data = ncols data_org \<and> rows data = rows data_org"
  by (auto simp: place_def to_cuda_def clone_def split: if_splits)

lemma place_Some_iff:
  "(\<exists>p. place cuda_is_available force_cpu data_org = Some p) \<longleftrightarrow> cuda_is_available \<or> force_cpu"
  by (auto simp: place_def)

lemma get_column_None: "resolve_index (ncols t) i = None \<Longrightarrow> get_column t i = None"
  by (simp add: get_column_def)

lemma set_column_None: "resolve_index (ncols t) i = None \<Longrightarrow> set_column t i col = None"
  by (simp add: set_column_def)

text \<open>
  Claim C5, as stated, fails: a \<open>steps\<close> larger than the number of distinct time values is
  not rejected. On the one-group table (four distinct time values) the call with
  \<open>steps = 5\<close> and \<open>return_full\<close> true returns a table, its target column all \<open>NaN\<close>.
\<close>

theorem oversize_steps_is_accepted:
  "shift_and_mask_column False one_group (- 1) 1 5 True True False
     = (one_group, Inr (one_group\<lparr>rows :=
         [[Num 0, Num 0, Num 0, NaN],
          [Num 1, Num 1, Num 0, NaN],
          [Num 2, Num 2, Num 0, NaN],
          [Num 3, Num 3, Num 0, NaN]]\<rparr>))"
  by (simp add: engine_defs one_group_def rotate_def eval_nat_numeral)

text \<open>
  Claim C5, amended. For every call in which the time column index is out of range for the
  table, or in which the shifted column overwrites and the index of the column to
  overwrite is out of range, the call raises an error and the caller's table is as it
  was. Nothing is promised for the size of \<open>steps\<close>.
\<close>

theorem out_of_range_column_raises:
  assumes "resolve_index (ncols data_org) time_column_idx = None
           \<or> (\<not> retain_unshifted_col
               \<and> resolve_index (ncols data_org) column_to_shift_idx = None)"
  shows "\<exists>e. shift_and_mask_column cuda_is_available data_org column_to_shift_idx
                time_column_idx steps force_cpu return_full retain_unshifted_col
              = (data_org, Inl e)"
proof (cases "place cuda_is_available force_cpu data_org")
  case None
  then show ?thesis by (simp add: shift_and_mask_column_def)
next
  case (Some p)
  obtain data shared where p: "p = (data, shared)" by (cases p)
  have n: "ncols data = ncols data_org"
    using Some p ncols_place by blast
  show ?thesis
    using assms Some p n
    by (auto simp: shift_and_mask_column_def get_column_None set_column_None
        split: option.splits sum.splits)
qed

theorem out_of_range_column_raises_witness:
  "resolve_index (ncols one_group) 7 = None
   \<and> (\<exists>e. shift_and_mask_column False one_group (- 1) 7 1 True False False
            = (one_group, Inl e))"
proof -
  have h: "resolve_index (ncols one_group) 7 = None"
    by (simp add: resolve_index_def one_group_def)
  then have "resolve_index (ncols one_group) 7 = None
           \<or> (\<not> False \<and> resolve_index (ncols one_group) (- 1) = None)"
    by (rule disjI1)
  from out_of_range_column_raises
         [where cuda_is_available = False and force_cpu = True and steps = 1
            and return_full = False, OF this] h
  show ?thesis by simp
qed

text \<open>
  The one check on \<open>steps\<close> is the library's: when \<open>-steps\<close> does not fit a signed 64-bit
  integer, the roll raises, after the columns were read and before anything is written.
\<close>

lemma shift_out_of_int64_raises:
  assumes placed: "cuda_is_available \<or> force_cpu"
    and t: "resolve_index (ncols data_org) time_column_idx = Some tc"
    and src: "resolve_index (ncols data_org) (- time_column_idx) = Some c"
    and big: "\<not> fits_int64 (- steps)"
  shows "shift_and_mask_column cuda_is_available data_org column_to_shift_idx
           time_column_idx steps force_cpu return_full retain_unshifted_col
         = (data_org, Inl Overflow)"
proof -
  obtain data shared where p: "place cuda_is_available force_cpu data_org = Some (data, shared)"
    and n: "ncols data = ncols data_org"
    using placed_copy [OF placed, of data_org] by blast
  show ?thesis
    using p n t src
    by (simp add: shift_and_mask_column_def get_column_def
        masked_column_shifted_overflow [OF big])
qed

section \<open>A shift by zero steps\<close>

lemma time_values_mask_zero:
  "time_values_mask time_column 0 = replicate (length time_column) False"
  by (simp add: time_values_mask_def time_values_to_mask_def slice_to_def isin_def
      map_replicate_const)

lemma where_not_none: "where_not (replicate (length col) False) col = col"
  by (induction col) (simp_all add: where_not_def)

lemma roll_zero: "roll_values 0 xs = xs"
  by (simp add: roll_values_def)

lemma map2_update_same: "map2 (\<lambda>r v. r[c := v]) rs (map (\<lambda>r. r ! c) rs) = rs"
  by (induction rs) simp_all

text \<open>
  Take any table and a run that places its working copy (an accelerator is available or
  \<open>force_cpu\<close> is set), that overwrites, and whose column indices exist with the column
  read being the column written, as with the defaults \<open>-1\<close> and \<open>1\<close>. With \<open>steps = 0\<close> the
  boundary mask marks no row, and, if the target column holds no \<open>NaN\<close>, the table returned
  has exactly the rows of the input, with or without filtering. The caller's table is
  unchanged too.
\<close>

theorem zero_steps_is_identity:
  assumes placed: "cuda_is_available \<or> force_cpu"
    and t: "resolve_index (ncols data_org) time_column_idx = Some tc"
    and src: "resolve_index (ncols data_org) (- time_column_idx) = Some c"
    and tgt: "resolve_index (ncols data_org) column_to_shift_idx = Some c"
    and nonan: "\<forall>r \<in> set (rows data_org). \<not> isnan (r ! c)"
  shows "time_values_mask (map (\<lambda>r. r ! tc) (rows data_org)) 0
           = replicate (length (rows data_org)) False
         \<and> shift_and_mask_column cuda_is_available data_org column_to_shift_idx
             time_column_idx 0 force_cpu return_full False
           = (data_org,
              Inr (data_org\<lparr>device := if cuda_is_available \<and> \<not> force_cpu then CUDA
                                        else device data_org\<rparr>))"
proof -
  define data where "data = data_org\<lparr>device := if cuda_is_available \<and> \<not> force_cpu then CUDA
                                        else device data_org\<rparr>"
  define shared where "shared \<longleftrightarrow> cuda_is_available \<and> \<not> force_cpu \<and> device data_org = CUDA"
  have p: "place cuda_is_available force_cpu data_org = Some (data, shared)"
    using placed by (auto simp: place_def to_cuda_def clone_def data_def shared_def)
  have sh: "shared \<longrightarrow> data = data_org"
    by (simp add: data_def shared_def)
  have n: "ncols data = ncols data_org" and r: "rows data = rows data_org"
    using data_def by simp_all
  let ?col = "map (\<lambda>r. r ! c) (rows data_org)"
  have shifted: "shifted_values
                   (time_values_mask (map (\<lambda>r. r ! tc) (rows data_org)) 0) ?col 0 = ?col"
    using where_not_none [of ?col]
    by (simp add: time_values_mask_zero roll_zero)
  have ms: "masked_column_shifted
              (time_values_mask (map (\<lambda>r. r ! tc) (rows data_org)) 0) ?col 0 = Inr ?col"
    using shifted by (simp add: masked_column_shifted_def roll_def fits_int64_def)
  have w: "set_column data column_to_shift_idx ?col = Some data"
    using tgt by (simp add: set_column_def n r map2_update_same)
  have f: "filter (\<lambda>r. \<not> isnan (r ! c)) (rows data) = rows data"
    using nonan by (simp add: r)
  have keep: "drop_nan_rows data column_to_shift_idx return_full = Inr data"
    using tgt f
    by (simp add: drop_nan_rows_def get_column_def n select_rows_def
        select_rows_by_predicate comp_def)
  have "shift_and_mask_column cuda_is_available data_org column_to_shift_idx
             time_column_idx 0 force_cpu return_full False = (data_org, Inr data)"
    using p t src ms w keep sh
    by (simp add: shift_and_mask_column_def get_column_def n r)
  then show ?thesis
    using data_def by (simp add: time_values_mask_zero)
qed

theorem zero_steps_is_identity_witness:
  "time_values_mask (map (\<lambda>r. r ! 1) (rows one_group)) 0 = [False, False, False, False]
   \<and> shift_and_mask_column False one_group (- 1) 1 0 True False False
       = (one_group, Inr one_group)"
proof -
  have placed: "False \<or> True" by simp
  have t: "resolve_index (ncols one_group) 1 = Some 1"
    by (simp add: resolve_index_def one_group_def)
  have src: "resolve_index (ncols one_group) (- 1) = Some 3"
    by (simp add: resolve_index_def one_group_def)
  have nonan: "\<forall>r \<in> set (rows one_group). \<not> isnan (r ! 3)"
    by (simp add: one_group_def)
  from zero_steps_is_identity [OF placed t src src nonan, where return_full = False]
  show ?thesis by (simp add: one_group_def)
qed

text \<open>
  Claim C8. With \<open>steps = 0\<close> the engine is meant to return every table as it is. The code
  does so only when the column it reads, at \<open>-time_column_idx\<close>, is the column it writes,
  and when its working copy is placed. On the table that stores the time index in columns
  1 and 2, the call with the time column 2 and \<open>steps = 0\<close> overwrites the targets 10, 20, 30
  with the feature column 7, 8, 9; and without an accelerator the call with every option
  at its default raises \<^verbatim>\<open>UnboundLocalError\<close> and returns no table.
\<close>

theorem zero_steps_overwrites_target:
  "shift_and_mask_column False two_time_columns (- 1) 2 0 True False False
     = (two_time_columns, Inr (two_time_columns\<lparr>rows :=
         [[Num 0, Num 0, Num 0, Num 7, Num 7],
          [Num 1, Num 1, Num 1, Num 8, Num 8],
          [Num 2, Num 2, Num 2, Num 9, Num 9]]\<rparr>))
   \<and> shift_and_mask_column False one_group (- 1) 1 0 False False False
     = (one_group, Inl UnboundLocalError)"
  by (simp add: engine_defs two_time_columns_def one_group_def)

section \<open>The direction of the shift\<close>

text \<open>
  What the roll by \<open>-steps\<close> computes on a panel. The table holds \<open>G\<close> groups one after
  the other, each with the same strictly increasing time values \<open>ts\<close>. With
  \<open>0 \<le> steps \<le> length ts\<close>, the cell written at row \<open>i\<close> is the source cell \<open>steps\<close> rows
  further down when that row is in the same group, and \<open>NaN\<close> otherwise: no value crosses
  from one group into another, and the censored rows are the last \<open>steps\<close> rows of each
  group.
\<close>

lemma nth_concat_replicate:
  "i < G * length xs \<Longrightarrow> concat (replicate G xs) ! i = xs ! (i mod length xs)"
proof (induction G arbitrary: i)
  case 0
  then show ?case by simp
next
  case (Suc G)
  show ?case
  proof (cases "i < length xs")
    case True
    then show ?thesis by (simp add: nth_append)
  next
    case False
    then have "i - length xs < G * length xs" using Suc.prems by simp
    then have "concat (replicate G xs) ! (i - length xs) = xs ! ((i - length xs) mod length xs)"
      by (rule Suc.IH)
    with False show ?thesis by (simp add: nth_append le_mod_geq)
  qed
qed

lemma nth_in_take_distinct:
  assumes "distinct xs" and "a < length xs"
  shows "xs ! a \<in> set (take k xs) \<longleftrightarrow> a < k"
proof
  assume "xs ! a \<in> set (take k xs)"
  then obtain b where b: "b < length (take k xs)" "take k xs ! b = xs ! a"
    by (auto simp: in_set_conv_nth)
  then have "b < length xs" "b < k" "xs ! b = xs ! a" by simp_all
  with assms have "b = a" by (simp add: nth_eq_iff_index_eq)
  with \<open>b < k\<close> show "a < k" by simp
next
  assume "a < k"
  with assms(2) have "a < length (take k xs)" by simp
  then have "take k xs ! a \<in> set (take k xs)" by (rule nth_mem)
  with \<open>a < k\<close> show "xs ! a \<in> set (take k xs)" by simp
qed

lemma nth_roll:
  assumes "i < length xs" and "0 \<le> k"
  shows "roll_values (- k) xs ! i = xs ! ((i + nat k) mod length xs)"
proof -
  have ne: "xs \<noteq> []" using assms(1) by auto
  have "nat (k mod int (length xs)) = nat k mod length xs"
    using assms(2) by (simp add: nat_mod_distrib)
  then have "roll_values (- k) xs ! i = xs ! ((i + nat k mod length xs) mod length xs)"
    using ne assms(1) by (simp add: roll_values_def nth_rotate add.commute)
  then show ?thesis by (simp add: mod_add_right_eq)
qed

lemma nth_where_not:
  "i < length col \<Longrightarrow> length marked = length col \<Longrightarrow>
     where_not marked col ! i = (if marked ! i then NaN else col ! i)"
  by (simp add: where_not_def)

lemma shifted_cell_in_panel:
  fixes ts :: "'a::linorder list"
  assumes times: "time_column = concat (replicate G (map Num ts))"
    and ts: "sorted ts" "distinct ts"
    and len: "length col = G * length ts"
    and nonneg: "0 \<le> steps" and range: "nat steps \<le> length ts"
    and i: "i < G * length ts"
  shows "shifted_values (time_values_mask time_column steps) col steps ! i
         = (if i mod length ts + nat steps < length ts then col ! (i + nat steps) else NaN)"
proof -
  let ?T = "length ts" and ?k = "nat steps" and ?N = "G * length ts"
  have T: "0 < ?T" using i by (cases "?T = 0") simp_all
  have G: "0 < G" using i by (cases "G = 0") simp_all
  have lt: "length time_column = ?N" by (simp add: times length_concat sum_list_replicate)
  have tn: "\<And>j. j < ?N \<Longrightarrow> time_column ! j = Num (ts ! (j mod ?T))"
  proof -
    fix j assume j: "j < ?N"
    then have "time_column ! j = map Num ts ! (j mod length (map Num ts))"
      unfolding times using nth_concat_replicate [of j G "map Num ts"] by simp
    then show "time_column ! j = Num (ts ! (j mod ?T))" using T by simp
  qed
  have "set (nums time_column) = set ts"
    using G by (auto simp: set_nums times)
  then have L: "sort (remdups (nums time_column)) = ts"
    using ts by (intro sorted_distinct_set_unique) simp_all
  have marked: "\<And>j. j < ?N \<Longrightarrow> time_values_mask time_column steps ! j \<longleftrightarrow> j mod ?T < ?k"
  proof -
    fix j assume j: "j < ?N"
    have "time_values_mask time_column steps ! j \<longleftrightarrow> ts ! (j mod ?T) \<in> set (take ?k ts)"
      using time_values_mask_nth_nonneg [OF nonneg, of j time_column] j lt tn [OF j] L by simp
    also have "\<dots> \<longleftrightarrow> j mod ?T < ?k"
      using ts(2) T by (intro nth_in_take_distinct) simp_all
    finally show "time_values_mask time_column steps ! j \<longleftrightarrow> j mod ?T < ?k" .
  qed
  let ?masked = "where_not (time_values_mask time_column steps) col"
  have lm: "length (time_values_mask time_column steps) = length col"
    by (simp add: length_time_values_mask lt len)
  have lw: "length ?masked = ?N" using length_where_not [OF lm] len by simp
  let ?j = "(i + ?k) mod ?N"
  have "0 < ?N" using G T by simp
  then have j: "?j < ?N" by (rule mod_less_divisor)
  have "shifted_values (time_values_mask time_column steps) col steps ! i = ?masked ! ?j"
    using nth_roll [of i ?masked steps] i lw nonneg by simp
  also have "\<dots> = (if ?j mod ?T < ?k then NaN else col ! ?j)"
    using nth_where_not [of ?j col] j len lm marked [OF j] by simp
  finally have cell: "shifted_values (time_values_mask time_column steps) col steps ! i
                        = (if ?j mod ?T < ?k then NaN else col ! ?j)" .
  have jT: "?j mod ?T = (i + ?k) mod ?T"
    by (simp add: mod_mod_cancel)
  define q where "q = i div ?T"
  define p where "p = i mod ?T"
  have ip: "i = q * ?T + p" by (simp add: q_def p_def)
  have pT: "p < ?T" using T by (simp add: p_def)
  have "q < G" using i T by (simp add: q_def less_mult_imp_div_less)
  then have "Suc q * ?T \<le> ?N" by (intro mult_le_mono1) simp
  then have qT: "q * ?T + ?T \<le> ?N" by simp
  have modT: "(i + ?k) mod ?T = (p + ?k) mod ?T"
    unfolding ip by (simp add: add.assoc)
  show ?thesis
  proof (cases "p + ?k < ?T")
    case True
    have "i + ?k < ?N" using ip qT True by linarith
    then have "?j = i + ?k" by simp
    moreover have "(i + ?k) mod ?T = p + ?k"
      using modT True by simp
    ultimately show ?thesis using cell True by (simp add: p_def)
  next
    case False
    have small: "p + ?k - ?T < ?T" using pT range by linarith
    have "(p + ?k) mod ?T = (p + ?k - ?T) mod ?T"
      using False by (simp add: le_mod_geq)
    then have "(p + ?k) mod ?T = p + ?k - ?T"
      using small by simp
    moreover have "p + ?k - ?T < ?k" using pT False by linarith
    ultimately have "?j mod ?T < ?k" using jT modT by simp
    then show ?thesis using cell False by (simp add: p_def)
  qed
qed

lemma same_group_position:
  fixes i k T G :: nat
  assumes "i < G * T" and "i mod T + k < T"
  shows "i + k < G * T"
proof -
  have T: "0 < T" using assms(2) by (cases "T = 0") simp_all
  define q where "q = i div T"
  define p where "p = i mod T"
  have ip: "i = q * T + p" by (simp add: q_def p_def)
  have "q < G" using assms(1) T by (simp add: q_def less_mult_imp_div_less)
  then have "Suc q * T \<le> G * T" by (intro mult_le_mono1) simp
  then have "q * T + T \<le> G * T" by simp
  then show ?thesis using ip assms(2) unfolding p_def [symmetric] by linarith
qed

text \<open>The result of an overwriting run whose three column indices exist.\<close>

lemma overwriting_run:
  assumes placed: "cuda_is_available \<or> force_cpu"
    and t: "resolve_index (ncols data_org) time_column_idx = Some tc"
    and src: "resolve_index (ncols data_org) (- time_column_idx) = Some c"
    and tgt: "resolve_index (ncols data_org) column_to_shift_idx = Some c'"
    and fits: "fits_int64 (- steps)"
  shows "\<exists>data. ncols data = ncols data_org \<and> rows data = rows data_org
           \<and> snd (shift_and_mask_column cuda_is_available data_org column_to_shift_idx
                    time_column_idx steps force_cpu return_full False)
               = drop_nan_rows
                   (data\<lparr>rows := map2 (\<lambda>r v. r[c' := v]) (rows data_org)
                      (shifted_values
                         (time_values_mask (map (\<lambda>r. r ! tc) (rows data_org)) steps)
                         (map (\<lambda>r. r ! c) (rows data_org)) steps)\<rparr>)
                   column_to_shift_idx return_full"
proof -
  obtain data shared where p: "place cuda_is_available force_cpu data_org = Some (data, shared)"
    and n: "ncols data = ncols data_org" and r: "rows data = rows data_org"
    using placed_copy [OF placed, of data_org] by blast
  show ?thesis
    using p n r t src tgt
    by (intro exI [of _ data])
      (simp add: shift_and_mask_column_def get_column_def set_column_def
         masked_column_shifted_fits [OF fits])
qed

lemma shift_within_groups:
  fixes ts :: "'a::linorder list"
  assumes wf: "wf_tensor data_org"
    and placed: "cuda_is_available \<or> force_cpu"
    and t: "resolve_index (ncols data_org) time_column_idx = Some tc"
    and src: "resolve_index (ncols data_org) (- time_column_idx) = Some c"
    and tgt: "resolve_index (ncols data_org) column_to_shift_idx = Some c'"
    and times: "map (\<lambda>r. r ! tc) (rows data_org) = concat (replicate G (map Num ts))"
    and ts: "sorted ts" "distinct ts"
    and nonneg: "0 \<le> steps" and range: "nat steps \<le> length ts"
    and fits: "fits_int64 (- steps)"
    and i: "i < length (rows data_org)"
  shows "\<exists>new_data.
           snd (shift_and_mask_column cuda_is_available data_org column_to_shift_idx
                  time_column_idx steps force_cpu True False) = Inr new_data
           \<and> length (rows new_data) = length (rows data_org)
           \<and> rows new_data ! i ! c'
               = (if i mod length ts + nat steps < length ts
                  then rows data_org ! (i + nat steps) ! c else NaN)
           \<and> (\<forall>j. j \<noteq> c' \<longrightarrow> rows new_data ! i ! j = rows data_org ! i ! j)"
proof -
  let ?rs = "rows data_org"
  let ?col = "map (\<lambda>r. r ! c) ?rs"
  let ?shifted = "shifted_values
                    (time_values_mask (map (\<lambda>r. r ! tc) ?rs) steps) ?col steps"
  have N: "length ?rs = G * length ts"
    using arg_cong [OF times, of length] by (simp add: length_concat sum_list_replicate)
  have lm: "length (time_values_mask (map (\<lambda>r. r ! tc) ?rs) steps) = length ?col"
    by (simp add: length_time_values_mask)
  have ls: "length ?shifted = length ?rs"
    using length_shifted_values [OF lm] by simp
  obtain data where run:
    "snd (shift_and_mask_column cuda_is_available data_org column_to_shift_idx
            time_column_idx steps force_cpu True False)
       = drop_nan_rows (data\<lparr>rows := map2 (\<lambda>r v. r[c' := v]) ?rs ?shifted\<rparr>)
           column_to_shift_idx True"
    using overwriting_run [OF placed t src tgt fits] by blast
  define new_data where "new_data = data\<lparr>rows := map2 (\<lambda>r v. r[c' := v]) ?rs ?shifted\<rparr>"
  have res: "snd (shift_and_mask_column cuda_is_available data_org column_to_shift_idx
                  time_column_idx steps force_cpu True False) = Inr new_data"
    using run by (simp add: drop_nan_rows_def new_data_def)
  have len: "length (rows new_data) = length ?rs"
    using ls by (simp add: new_data_def)
  have row: "rows new_data ! i = (?rs ! i)[c' := ?shifted ! i]"
    using i ls by (simp add: new_data_def)
  have "c' < length (?rs ! i)"
    using wf i resolve_index_less [OF tgt] by (simp add: wf_tensor_def list_all_length)
  then have cell: "rows new_data ! i ! c' = ?shifted ! i"
    using row by simp
  have "?shifted ! i = (if i mod length ts + nat steps < length ts
                        then ?col ! (i + nat steps) else NaN)"
    using i by (intro shifted_cell_in_panel [OF times ts _ nonneg range]) (simp_all add: N)
  moreover have "i mod length ts + nat steps < length ts \<Longrightarrow>
                   ?col ! (i + nat steps) = ?rs ! (i + nat steps) ! c"
    using same_group_position [of i G "length ts" "nat steps"] i N by simp
  ultimately have "rows new_data ! i ! c'
               = (if i mod length ts + nat steps < length ts
                  then ?rs ! (i + nat steps) ! c else NaN)"
    using cell by simp
  moreover have "\<forall>j. j \<noteq> c' \<longrightarrow> rows new_data ! i ! j = ?rs ! i ! j"
    using row by simp
  ultimately show ?thesis using res len by blast
qed

text \<open>
  Claim C1. The docstring of the shifter promises a column shifted down (a lag): for one
  group with time steps 0, 1, 2, 3, targets 10, 20, 30, 40 and \<open>steps = 1\<close> the target
  column would become \<open>NaN\<close>, 10, 20, 30 and the surviving rows would be those of the time
  steps 1, 2, 3. The code rolls the masked column by \<open>-steps\<close>, which moves every value up:
  on that table the overwritten target column is 20, 30, 40, \<open>NaN\<close>, and the surviving rows
  are those of the time steps 0, 1, 2, with the targets 20, 30, 40 observed one period
  later.
\<close>

theorem one_group_shift_leads:
  "shift_and_mask_column False one_group (- 1) 1 1 True True False
     = (one_group, Inr (one_group\<lparr>rows :=
         [[Num 0, Num 0, Num 0, Num 20],
          [Num 1, Num 1, Num 0, Num 30],
          [Num 2, Num 2, Num 0, Num 40],
          [Num 3, Num 3, Num 0, NaN]]\<rparr>))
   \<and> shift_and_mask_column False one_group (- 1) 1 1 True False False
     = (one_group, Inr (one_group\<lparr>rows :=
         [[Num 0, Num 0, Num 0, Num 20],
          [Num 1, Num 1, Num 0, Num 30],
          [Num 2, Num 2, Num 0, Num 40]]\<rparr>))"
  by (simp add: engine_defs one_group_def rotate_def eval_nat_numeral)

section \<open>The row-count law\<close>

text \<open>
  The number of rows removed, for \<open>steps \<ge> 0\<close>. Rolling moves cells and changes no count,
  so the rows removed are the rows marked; when every group holds every time value of the
  table exactly once, each of the \<open>steps\<close> smallest time values marks one row per group.
\<close>

lemma length_filter_partition:
  assumes "finite A" and "f ` set xs \<subseteq> A"
  shows "length (filter P xs) = (\<Sum>y\<in>A. length (filter (\<lambda>x. f x = y \<and> P x) xs))"
  using assms(2)
proof (induction xs)
  case Nil
  then show ?case by simp
next
  case (Cons x xs)
  have fx: "f x \<in> A" using Cons.prems by simp
  have IH: "length (filter P xs) = (\<Sum>y\<in>A. length (filter (\<lambda>x. f x = y \<and> P x) xs))"
    using Cons by simp
  have "(\<Sum>y\<in>A. length (filter (\<lambda>z. f z = y \<and> P z) (x # xs)))
        = (\<Sum>y\<in>A. (if y = f x then (if P x then 1 else 0) else 0)
                    + length (filter (\<lambda>z. f z = y \<and> P z) xs))"
    by (rule sum.cong) auto
  also have "\<dots> = (\<Sum>y\<in>A. (if y = f x then (if P x then 1 else 0) else 0))
                  + (\<Sum>y\<in>A. length (filter (\<lambda>z. f z = y \<and> P z) xs))"
    by (rule sum.distrib)
  also have "(\<Sum>y\<in>A. (if y = f x then (if P x then 1 else 0) else 0)) = (if P x then 1 else (0::nat))"
    using assms(1) fx by (simp add: sum.delta)
  finally show ?case using IH by simp
qed

lemma length_filter_written_column:
  assumes "length vs = length rs" and "\<forall>r\<in>set rs. c < length r"
  shows "length (filter (\<lambda>r. P (r ! c)) (map2 (\<lambda>r v. r[c := v]) rs vs)) = length (filter P vs)"
  using assms
proof (induction vs rs rule: list_induct2)
  case Nil
  then show ?case by simp
next
  case (Cons v vs r rs)
  then show ?case by simp
qed

lemma length_filter_rotate: "length (filter P (rotate n xs)) = length (filter P xs)"
proof -
  let ?m = "n mod length xs"
  have "length (filter P (rotate n xs))
          = length (filter P (drop ?m xs)) + length (filter P (take ?m xs))"
    by (simp add: rotate_drop_take)
  also have "\<dots> = length (filter P (take ?m xs @ drop ?m xs))"
    by (simp only: filter_append length_append add.commute)
  also have "\<dots> = length (filter P xs)"
    by (simp only: append_take_drop_id)
  finally show ?thesis .
qed

lemma length_filter_roll: "length (filter P (roll_values s xs)) = length (filter P xs)"
  by (simp add: roll_values_def length_filter_rotate)

lemma count_nan_where_not:
  assumes "length marked = length col" and "\<forall>v\<in>set col. \<not> isnan v"
  shows "length (filter isnan (where_not marked col)) = length (filter (\<lambda>m. m) marked)"
  using assms
proof (induction marked col rule: list_induct2)
  case Nil
  then show ?case by (simp add: where_not_def)
next
  case (Cons m ms v vs)
  then show ?case by (simp add: where_not_def)
qed

lemma marked_count:
  assumes "0 \<le> steps"
  shows "length (filter (\<lambda>m. m) (time_values_mask time_column steps))
         = length (filter (\<lambda>x. x \<in> Num ` set (take (nat steps)
                                  (sort (remdups (nums time_column))))) time_column)"
proof -
  have "\<And>x. list_ex (cell_eq x) (time_values_to_mask time_column steps)
          \<longleftrightarrow> x \<in> Num ` set (take (nat steps) (sort (remdups (nums time_column))))"
    unfolding list_ex_cell_eq time_values_to_mask_nonneg [OF assms] Num_in_take_unique
    by auto
  then show ?thesis
    by (simp add: time_values_mask_def isin_def filter_map comp_def)
qed

lemma count_members_of_uniform_column:
  assumes uniform: "\<forall>y\<in>set xs. length (filter (\<lambda>x. x = y) xs) = G"
    and sub: "B \<subseteq> set xs"
  shows "length (filter (\<lambda>x. x \<in> B) xs) = card B * G"
proof -
  have "length (filter (\<lambda>x. x \<in> B) xs)
          = (\<Sum>y\<in>set xs. length (filter (\<lambda>x. id x = y \<and> x \<in> B) xs))"
    by (rule length_filter_partition) simp_all
  also have "\<dots> = (\<Sum>y\<in>set xs. if y \<in> B then G else 0)"
  proof (rule sum.cong)
    fix y assume y: "y \<in> set xs"
    show "length (filter (\<lambda>x. id x = y \<and> x \<in> B) xs) = (if y \<in> B then G else 0)"
    proof (cases "y \<in> B")
      case True
      then have "filter (\<lambda>x. id x = y \<and> x \<in> B) xs = filter (\<lambda>x. x = y) xs"
        by (intro filter_cong) auto
      with True uniform y show ?thesis by simp
    next
      case False
      then have "filter (\<lambda>x. id x = y \<and> x \<in> B) xs = []"
        by (auto simp: filter_empty_conv)
      with False show ?thesis by simp
    qed
  qed simp
  also have "\<dots> = (\<Sum>y\<in>set xs \<inter> B. G)"
    by (rule sum.inter_restrict [symmetric]) simp
  also have "set xs \<inter> B = B" using sub by blast
  finally show ?thesis by simp
qed

lemma occurrences_per_time_value:
  assumes panel: "\<forall>g\<in>set (map grp rs). \<forall>y\<in>set (map tm rs).
                    length (filter (\<lambda>r. grp r = g \<and> tm r = y) rs) = 1"
    and y: "y \<in> set (map tm rs)"
  shows "length (filter (\<lambda>x. x = y) (map tm rs)) = card (set (map grp rs))"
proof -
  have "length (filter (\<lambda>x. x = y) (map tm rs)) = length (filter (\<lambda>r. tm r = y) rs)"
    by (simp add: filter_map comp_def)
  also have "\<dots> = (\<Sum>g\<in>set (map grp rs). length (filter (\<lambda>r. grp r = g \<and> tm r = y) rs))"
    by (rule length_filter_partition) simp_all
  also have "\<dots> = (\<Sum>g\<in>set (map grp rs). 1)"
    using panel y by (intro sum.cong) auto
  finally show ?thesis by simp
qed

lemma set_without_nan: "\<forall>x\<in>set xs. \<not> isnan x \<Longrightarrow> set xs = Num ` set (nums xs)"
proof (induction xs rule: nums.induct)
  case 1
  then show ?case by simp
next
  case (2 xs)
  then show ?case by simp
next
  case (3 v xs)
  then show ?case by simp
qed

lemma length_unique_without_nan:
  assumes "\<forall>x\<in>set xs. \<not> isnan x"
  shows "length (unique xs) = card (set xs)"
proof -
  have "filter isnan xs = []" using assms by (simp add: filter_empty_conv)
  then have "length (unique xs) = card (set (nums xs))"
    by (simp add: unique_def length_remdups_card_conv)
  also have "\<dots> = card (Num ` set (nums xs))"
    by (simp add: card_image inj_on_def)
  finally show ?thesis using set_without_nan [OF assms] by simp
qed

lemma row_count_law_nonneg_steps:
  assumes wf: "wf_tensor data_org"
    and placed: "cuda_is_available \<or> force_cpu"
    and t: "resolve_index (ncols data_org) time_column_idx = Some tc"
    and src: "resolve_index (ncols data_org) (- time_column_idx) = Some c"
    and tgt: "resolve_index (ncols data_org) column_to_shift_idx = Some c"
    and grp: "2 < ncols data_org"
    and numeric: "\<forall>r\<in>set (rows data_org). \<not> isnan (r ! c) \<and> \<not> isnan (r ! tc) \<and> \<not> isnan (r ! 2)"
    and panel: "\<forall>g\<in>set (map (\<lambda>r. r ! 2) (rows data_org)).
                \<forall>y\<in>set (map (\<lambda>r. r ! tc) (rows data_org)).
                  length (filter (\<lambda>r. r ! 2 = g \<and> r ! tc = y) (rows data_org)) = 1"
    and nonneg: "0 \<le> steps"
    and range: "nat steps \<le> card (set (map (\<lambda>r. r ! tc) (rows data_org)))"
    and fits: "fits_int64 (- steps)"
  shows "\<exists>new_data.
           snd (shift_and_mask_column cuda_is_available data_org column_to_shift_idx
                  time_column_idx steps force_cpu False False) = Inr new_data
           \<and> int (length (rows data_org)) - int (length (rows new_data))
               = int (card (set (map (\<lambda>r. r ! 2) (rows data_org)))) * steps
           \<and> check_if_length_correct data_org new_data steps = Inr True"
proof -
  define data where "data = data_org\<lparr>device := if cuda_is_available \<and> \<not> force_cpu then CUDA
                                        else device data_org\<rparr>"
  define shared where "shared \<longleftrightarrow> cuda_is_available \<and> \<not> force_cpu \<and> device data_org = CUDA"
  have p: "place cuda_is_available force_cpu data_org = Some (data, shared)"
    using placed by (auto simp: place_def to_cuda_def clone_def data_def shared_def)
  have n: "ncols data = ncols data_org" and r: "rows data = rows data_org"
    using data_def by simp_all
  let ?rs = "rows data_org"
  let ?tcol = "map (\<lambda>r. r ! tc) ?rs"
  let ?gcol = "map (\<lambda>r. r ! 2) ?rs"
  let ?col = "map (\<lambda>r. r ! c) ?rs"
  let ?G = "card (set ?gcol)"
  define marked where "marked = time_values_mask ?tcol steps"
  define shifted where "shifted = shifted_values marked ?col steps"
  define S where "S = set (take (nat steps) (sort (remdups (nums ?tcol))))"
  have lm: "length marked = length ?col"
    by (simp add: marked_def length_time_values_mask)
  have ls: "length shifted = length ?rs"
    using length_shifted_values [OF lm] by (simp add: shifted_def)
  have cw: "\<forall>r\<in>set ?rs. c < length r"
    using wf resolve_index_less [OF tgt] by (simp add: wf_tensor_def list_all_iff)
  have tset: "set ?tcol = Num ` set (nums ?tcol)"
    using numeric by (intro set_without_nan) simp
  have "length (sort (remdups (nums ?tcol))) = card (set (nums ?tcol))"
    by (simp add: length_remdups_card_conv)
  also have "\<dots> = card (set ?tcol)"
    unfolding tset by (simp add: card_image inj_on_def)
  finally have "nat steps \<le> length (sort (remdups (nums ?tcol)))"
    using range by simp
  then have cS: "card S = nat steps"
    unfolding S_def by (simp add: distinct_card)
  have "S \<subseteq> set (nums ?tcol)"
    unfolding S_def using set_take_subset [of "nat steps" "sort (remdups (nums ?tcol))"] by simp
  then have sub: "Num ` S \<subseteq> set ?tcol"
    using tset by blast
  have uniform: "\<forall>y\<in>set ?tcol. length (filter (\<lambda>x. x = y) ?tcol) = ?G"
    using occurrences_per_time_value [OF panel] by blast
  have "length (filter (\<lambda>m. m) marked) = length (filter (\<lambda>x. x \<in> Num ` S) ?tcol)"
    unfolding marked_def S_def by (rule marked_count [OF nonneg])
  also have "\<dots> = card (Num ` S) * ?G"
    by (rule count_members_of_uniform_column [OF uniform sub])
  also have "card (Num ` S) = card S"
    by (simp add: card_image inj_on_def)
  finally have cm: "length (filter (\<lambda>m. m) marked) = nat steps * ?G"
    using cS by simp
  have "length (filter isnan shifted) = length (filter isnan (where_not marked ?col))"
    by (simp add: shifted_def length_filter_roll)
  also have "\<dots> = length (filter (\<lambda>m. m) marked)"
    using numeric by (intro count_nan_where_not [OF lm]) simp
  finally have cn: "length (filter isnan shifted) = nat steps * ?G"
    using cm by simp
  define data' where "data' = data\<lparr>rows := map2 (\<lambda>r v. r[c := v]) ?rs shifted\<rparr>"
  define new_data where "new_data = data'\<lparr>rows := filter (\<lambda>r. \<not> isnan (r ! c)) (rows data')\<rparr>"
  have w: "set_column data column_to_shift_idx shifted = Some data'"
    using tgt by (simp add: set_column_def n r data'_def)
  have d: "drop_nan_rows data' column_to_shift_idx False = Inr new_data"
    unfolding new_data_def
    by (rule drop_nan_rows_False) (simp add: data'_def n tgt)
  have run: "snd (shift_and_mask_column cuda_is_available data_org column_to_shift_idx
                  time_column_idx steps force_cpu False False) = Inr new_data"
    using p t src w d
    by (simp add: shift_and_mask_column_def get_column_def n r shifted_def marked_def
        masked_column_shifted_fits [OF fits])
  have "length (rows new_data) = length (filter (\<lambda>v. \<not> isnan v) shifted)"
    unfolding new_data_def data'_def
    using length_filter_written_column [OF ls cw, of "\<lambda>v. \<not> isnan v"] by simp
  moreover have "length (filter isnan shifted) + length (filter (\<lambda>v. \<not> isnan v) shifted)
                   = length shifted"
    by (rule sum_length_filter_compl)
  ultimately have "length (rows new_data) + nat steps * ?G = length ?rs"
    using cn ls by simp
  then have "int (length (rows new_data)) + int (nat steps * ?G) = int (length ?rs)"
    by (metis of_nat_add)
  then have diff: "int (length ?rs) - int (length (rows new_data)) = int ?G * steps"
    using nonneg by (simp add: mult.commute)
  have "length (unique ?gcol) = ?G"
    using numeric by (intro length_unique_without_nan) simp
  then have chk: "check_if_length_correct data_org new_data steps = Inr True"
    using grp diff nonneg
    by (simp add: check_if_length_correct_def get_column_def resolve_index_def)
  from run diff chk show ?thesis by blast
qed

text \<open>
  Claim C3. The oracle \<^verbatim>\<open>check_if_length_correct\<close> expects the filter to remove the
  number of groups times \<open>|steps|\<close> rows. For \<open>steps = -1\<close> on two groups of three time
  steps each, sorted, without \<open>NaN\<close>, the engine removes four rows, not two: the slice
  \<^verbatim>\<open>[:steps]\<close> keeps two of the three time values, and the oracle answers false on the
  engine's own output.
\<close>

theorem negative_steps_break_row_count:
  "shift_and_mask_column False two_groups (- 1) 1 (- 1) True False False
     = (two_groups, Inr (two_groups\<lparr>rows :=
         [[Num 0, Num 0, Num 0, Num 60],
          [Num 3, Num 0, Num 1, Num 30]]\<rparr>))
   \<and> check_if_length_correct two_groups (two_groups\<lparr>rows :=
         [[Num 0, Num 0, Num 0, Num 60],
          [Num 3, Num 0, Num 1, Num 30]]\<rparr>) (- 1) = Inr False"
  by (simp add: engine_defs two_groups_def rotate_def eval_nat_numeral)

section \<open>The column read as the source\<close>

text \<open>
  Claim C4. The column shifted is meant to be the one at \<open>column_to_shift_idx\<close>, the last
  column by default, whatever the time column is. The code reads the source at
  \<open>-time_column_idx\<close>. On a table that stores the same time index in columns 1 and 2, the
  call with the time column 1 writes the shifted targets (20, 30, \<open>NaN\<close>) into the last
  column, and the call with the time column 2 writes the shifted feature column
  (8, 9, \<open>NaN\<close>) there.
\<close>

theorem time_column_selects_source:
  "shift_and_mask_column False two_time_columns (- 1) 1 1 True True False
     = (two_time_columns, Inr (two_time_columns\<lparr>rows :=
         [[Num 0, Num 0, Num 0, Num 7, Num 20],
          [Num 1, Num 1, Num 1, Num 8, Num 30],
          [Num 2, Num 2, Num 2, Num 9, NaN]]\<rparr>))
   \<and> shift_and_mask_column False two_time_columns (- 1) 2 1 True True False
     = (two_time_columns, Inr (two_time_columns\<lparr>rows :=
         [[Num 0, Num 0, Num 0, Num 7, Num 8],
          [Num 1, Num 1, Num 1, Num 8, Num 9],
          [Num 2, Num 2, Num 2, Num 9, NaN]]\<rparr>))"
  by (simp add: engine_defs two_time_columns_def rotate_def eval_nat_numeral)

section \<open>The placement option\<close>

text \<open>
  When an accelerator is available both settings of \<open>force_cpu\<close> place a working copy, and
  the two outcomes agree in every cell.
\<close>

lemma force_cpu_same_cells:
  fixes data_org :: "'a::linorder tensor"
  shows "map_sum id (\<lambda>t. (ncols t, rows t))
           (snd (shift_and_mask_column True data_org column_to_shift_idx time_column_idx
                   steps False return_full retain_unshifted_col))
         = map_sum id (\<lambda>t. (ncols t, rows t))
             (snd (shift_and_mask_column True data_org column_to_shift_idx time_column_idx
                     steps True return_full retain_unshifted_col))"
  by (auto simp: shift_and_mask_column_def place_def to_cuda_def clone_def get_column_def
      set_column_def column_stack_def drop_nan_rows_def select_rows_def
      masked_column_shifted_def roll_def split: option.splits)

text \<open>
  Claim C6. The placement option is meant to change where the work is done, not its
  result. Without an accelerator, the call with \<open>force_cpu\<close> false raises
  \<^verbatim>\<open>UnboundLocalError\<close> on the one-group table, and the call with \<open>force_cpu\<close> true returns
  the shifted and filtered table.
\<close>

theorem force_cpu_changes_outcome:
  "shift_and_mask_column False one_group (- 1) 1 1 False False False
     = (one_group, Inl UnboundLocalError)
   \<and> shift_and_mask_column False one_group (- 1) 1 1 True False False
     = (one_group, Inr (one_group\<lparr>rows :=
         [[Num 0, Num 0, Num 0, Num 20],
          [Num 1, Num 1, Num 0, Num 30],
          [Num 2, Num 2, Num 0, Num 40]]\<rparr>))"
  by (simp add: engine_defs one_group_def rotate_def eval_nat_numeral)

section \<open>The caller's table\<close>

text \<open>
  The caller's table is unchanged unless the working copy is the caller's tensor itself
  and is overwritten in place. Whatever a call returns, its rows are rows of the input,
  in their order, each differing from the input row at most in the column written.
\<close>

lemma caller_table_unchanged:
  assumes "\<not> cuda_is_available \<or> force_cpu \<or> retain_unshifted_col \<or> device data_org = CPU"
  shows "fst (shift_and_mask_column cuda_is_available data_org column_to_shift_idx
                time_column_idx steps force_cpu return_full retain_unshifted_col) = data_org"
proof (cases "place cuda_is_available force_cpu data_org")
  case None
  then show ?thesis by (simp add: shift_and_mask_column_def)
next
  case (Some p)
  obtain data shared where p: "p = (data, shared)" by (cases p)
  have "shared \<Longrightarrow> cuda_is_available \<and> \<not> force_cpu \<and> device data_org = CUDA"
    using Some p by (auto simp: place_def to_cuda_def clone_def split: if_splits)
  then have "shared \<Longrightarrow> retain_unshifted_col" using assms by auto
  then show ?thesis
    using Some p
    by (auto simp: shift_and_mask_column_def split: option.splits sum.splits)
qed

lemma kept_rows_exist:
  assumes R: "\<And>x v. R (f x v) x"
  shows "\<exists>kept. subseq kept xs
           \<and> list_all2 R (map fst (filter snd (zip (map2 f xs vs) keep))) kept"
proof (induction xs arbitrary: vs keep)
  case Nil
  then show ?case by simp
next
  case (Cons x xs)
  show ?case
  proof (cases vs)
    case Nil
    then show ?thesis by simp
  next
    case vs: (Cons v vs')
    show ?thesis
    proof (cases keep)
      case Nil
      then show ?thesis by simp
    next
      case keep: (Cons b keep')
      obtain kept where k: "subseq kept xs"
        "list_all2 R (map fst (filter snd (zip (map2 f xs vs') keep'))) kept"
        using Cons.IH by blast
      show ?thesis
      proof (cases b)
        case True
        have "subseq (x # kept) (x # xs)" using k(1) by simp
        moreover have "list_all2 R (map fst (filter snd (zip (map2 f (x # xs) vs) keep))) (x # kept)"
          using k(2) R True by (simp add: vs keep)
        ultimately show ?thesis by blast
      next
        case False
        have "subseq kept (x # xs)" using k(1) by (rule list_emb_Cons)
        moreover have "list_all2 R (map fst (filter snd (zip (map2 f (x # xs) vs) keep))) kept"
          using k(2) False by (simp add: vs keep)
        ultimately show ?thesis by blast
      qed
    qed
  qed
qed

lemma kept_rows_exist_full:
  assumes R: "\<And>x v. R (f x v) x"
  shows "\<exists>kept. subseq kept xs \<and> list_all2 R (map2 f xs vs) kept"
proof -
  have "map fst (filter snd (zip (map2 f xs vs) (replicate (length (map2 f xs vs)) True)))
          = map2 f xs vs"
    by (induction "map2 f xs vs") (simp_all add: zip_replicate2 filter_map comp_def)
  then show ?thesis
    using kept_rows_exist [of R f xs vs "replicate (length (map2 f xs vs)) True", OF R]
    by simp
qed

lemma drop_nan_rows_keeps:
  assumes "drop_nan_rows (d\<lparr>rows := map2 f xs vs\<rparr>) idx return_full = Inr new_data"
    and R: "\<And>x v. R (f x v) x"
  shows "\<exists>kept. subseq kept xs \<and> list_all2 R (rows new_data) kept"
proof (cases return_full)
  case True
  then have "rows new_data = map2 f xs vs"
    using assms(1) by (auto simp: drop_nan_rows_def)
  then show ?thesis using kept_rows_exist_full [of R f xs vs, OF R] by simp
next
  case False
  then obtain keep where "rows new_data = map fst (filter snd (zip (map2 f xs vs) keep))"
    using assms(1)
    by (auto simp: drop_nan_rows_def select_rows_def split: option.splits)
  then show ?thesis using kept_rows_exist [of R f xs vs keep, OF R] by simp
qed

lemma surviving_rows_keep_other_columns:
  assumes res: "snd (shift_and_mask_column cuda_is_available data_org column_to_shift_idx
                       time_column_idx steps force_cpu return_full retain_unshifted_col)
                  = Inr new_data"
  shows "\<exists>kept. subseq kept (rows data_org)
           \<and> list_all2 (\<lambda>r' r. \<forall>j<length r.
                 (retain_unshifted_col
                  \<or> resolve_index (ncols data_org) column_to_shift_idx \<noteq> Some j)
                 \<longrightarrow> r' ! j = r ! j) (rows new_data) kept"
proof -
  let ?R = "\<lambda>r' r. \<forall>j<length r.
                 (retain_unshifted_col
                  \<or> resolve_index (ncols data_org) column_to_shift_idx \<noteq> Some j)
                 \<longrightarrow> r' ! j = r ! j"
  obtain data shared where p: "place cuda_is_available force_cpu data_org = Some (data, shared)"
    using res by (cases "place cuda_is_available force_cpu data_org")
      (auto simp: shift_and_mask_column_def)
  have n: "ncols data = ncols data_org" and r: "rows data = rows data_org"
    using ncols_place [OF p] by simp_all
  show ?thesis
  proof (cases retain_unshifted_col)
    case True
    then obtain shifted where
      "drop_nan_rows (column_stack data shifted) column_to_shift_idx return_full = Inr new_data"
      using res p by (auto simp: shift_and_mask_column_def split: option.splits sum.splits)
    then have "drop_nan_rows (data\<lparr>ncols := Suc (ncols data),
                   rows := map2 (\<lambda>r v. r @ [v]) (rows data_org) shifted\<rparr>)
                 column_to_shift_idx return_full = Inr new_data"
      by (simp add: column_stack_def r)
    then have "drop_nan_rows ((data\<lparr>ncols := Suc (ncols data)\<rparr>)
                   \<lparr>rows := map2 (\<lambda>r v. r @ [v]) (rows data_org) shifted\<rparr>)
                 column_to_shift_idx return_full = Inr new_data"
      by simp
    then show ?thesis
      by (rule drop_nan_rows_keeps) (simp add: nth_append)
  next
    case False
    then obtain shifted c' where c': "resolve_index (ncols data_org) column_to_shift_idx = Some c'"
      and "drop_nan_rows (data\<lparr>rows := map2 (\<lambda>r v. r[c' := v]) (rows data_org) shifted\<rparr>)
             column_to_shift_idx return_full = Inr new_data"
      using res p
      by (auto simp: shift_and_mask_column_def set_column_def n r
          split: option.splits sum.splits)
    then show ?thesis
      using False by (intro drop_nan_rows_keeps [where f = "\<lambda>r v. r[c' := v]"]) auto
  qed
qed

text \<open>
  Claim C7. The engine is meant to work on a copy. When the caller's tensor is already on
  the accelerator and \<open>force_cpu\<close> is false, \<^verbatim>\<open>data_org.to('cuda')\<close> is the caller's tensor
  itself, and the overwrite in place reaches it: after the call on the one-group table the
  caller's target column is 20, 30, 40, \<open>NaN\<close>.
\<close>

theorem cuda_input_is_overwritten:
  "fst (shift_and_mask_column True one_group_on_cuda (- 1) 1 1 False False False)
     = one_group_on_cuda\<lparr>rows :=
         [[Num 0, Num 0, Num 0, Num 20],
          [Num 1, Num 1, Num 0, Num 30],
          [Num 2, Num 2, Num 0, Num 40],
          [Num 3, Num 3, Num 0, NaN]]\<rparr>
   \<and> fst (shift_and_mask_column True one_group_on_cuda (- 1) 1 1 False False False)
     \<noteq> one_group_on_cuda"
  by (simp add: engine_defs one_group_def one_group_on_cuda_def rotate_def eval_nat_numeral)

end
